theory Spec2Isabelle
  imports Main "HOL-Library.Multiset"
begin

section \<open>Python values and strings\<close>

text \<open>
  The contact manager of \<^verbatim>\<open>day2_contact_manager.py\<close> receives arbitrary Python values
  (its functions test \<^verbatim>\<open>isinstance(x, str)\<close>) and reads data parsed from JSON. A value
  is therefore one of the shapes \<^verbatim>\<open>json.load\<close> produces. A float is kept as a mantissa
  and a binary exponent; only its truth value is ever inspected.

  A Python \<^verbatim>\<open>str\<close> is a sequence of code points. The model has the code points below
  256, written \<open>Chr c\<close>, and the lone surrogates, \<open>Surrogate n\<close> for the code point
  \<^verbatim>\<open>U+D800 + n\<close> with \<open>n\<close> below 2048: \<^verbatim>\<open>json.load\<close> accepts them in a string and
  \<^verbatim>\<open>str\<close> operations carry them along, but the UTF-8 encoder of a text file rejects
  them. The character classes below are those of Python on these code points. A text written \<open>py ''abc''\<close> is the Python string of those
  characters.
\<close>

datatype pychar = Chr char | Surrogate nat

type_synonym pystr = "pychar list"

definition py :: "string \<Rightarrow> pystr" where
  "py s = map Chr s"

datatype pyval =
    VNone
  | VBool bool
  | VInt int
  | VFloat int int
  | VStr pystr
  | VList "pyval list"
  | VDict "(pystr \<times> pyval) list"

text \<open>Truth value of a Python object, as \<^verbatim>\<open>if x\<close> and \<^verbatim>\<open>not x\<close> test it.\<close>

fun truthy :: "pyval \<Rightarrow> bool" where
  "truthy VNone = False"
| "truthy (VBool b) = b"
| "truthy (VInt i) = (i \<noteq> 0)"
| "truthy (VFloat m e) = (m \<noteq> 0)"
| "truthy (VStr s) = (s \<noteq> [])"
| "truthy (VList xs) = (xs \<noteq> [])"
| "truthy (VDict kvs) = (kvs \<noteq> [])"

text \<open>Truth value of an \<^verbatim>\<open>Optional[str]\<close>: \<^verbatim>\<open>None\<close> and the empty string are false.\<close>

fun opt_truthy :: "pystr option \<Rightarrow> bool" where
  "opt_truthy None = False"
| "opt_truthy (Some s) = (s \<noteq> [])"

text \<open>\<^verbatim>\<open>x or ""\<close> on an \<^verbatim>\<open>Optional[str]\<close>.\<close>

fun or_empty :: "pystr option \<Rightarrow> pystr" where
  "or_empty None = []"
| "or_empty (Some s) = (if s \<noteq> [] then s else [])"

text \<open>The characters the pattern \<^verbatim>\<open>\d\<close> matches: the ten digits; no surrogate.\<close>

fun is_digit :: "pychar \<Rightarrow> bool" where
  "is_digit (Chr c) = (c \<in> set ''0123456789'')"
| "is_digit (Surrogate n) = False"

text \<open>
  The characters \<^verbatim>\<open>str.strip()\<close> removes: code points 9 to 13, 28 to 32, 133 and 160; no
  surrogate.
\<close>

fun is_space :: "pychar \<Rightarrow> bool" where
  "is_space (Chr c) = (let n = (of_char c :: nat) in
     (9 \<le> n \<and> n \<le> 13) \<or> (28 \<le> n \<and> n \<le> 32) \<or> n = 133 \<or> n = 160)"
| "is_space (Surrogate n) = False"

text \<open>
  \<^verbatim>\<open>str.lower()\<close> on one character: A to Z, and code points 192 to 222 except 215, move up
  by 32; a surrogate stays.
\<close>

fun lower_char :: "pychar \<Rightarrow> pychar" where
  "lower_char (Chr c) = (let n = (of_char c :: nat) in
     if (65 \<le> n \<and> n \<le> 90) \<or> (192 \<le> n \<and> n \<le> 222 \<and> n \<noteq> 215)
     then Chr (char_of (n + 32)) else Chr c)"
| "lower_char (Surrogate n) = Surrogate n"

text \<open>
  The characters the UTF-8 encoder of a text file accepts: every code point except the
  surrogates.
\<close>

fun utf8_encodable :: "pychar \<Rightarrow> bool" where
  "utf8_encodable (Chr c) = True"
| "utf8_encodable (Surrogate n) = False"

definition lower :: "pystr \<Rightarrow> pystr" where
  "lower s = map lower_char s"

definition strip :: "pystr \<Rightarrow> pystr" where
  "strip s = rev (dropWhile is_space (rev (dropWhile is_space s)))"

text \<open>\<^verbatim>\<open>re.sub(r"\D", "", s)\<close>: every character that is not a digit is deleted.\<close>

definition re_sub_nondigit :: "pystr \<Rightarrow> pystr" where
  "re_sub_nondigit s = filter is_digit s"

text \<open>\<^verbatim>\<open>s.startswith(p)\<close>, \<^verbatim>\<open>s.endswith(p)\<close> and \<^verbatim>\<open>q in s\<close>.\<close>

fun startswith :: "pystr \<Rightarrow> pystr \<Rightarrow> bool" where
  "startswith s [] = True"
| "startswith [] (p # ps) = False"
| "startswith (c # cs) (p # ps) = (c = p \<and> startswith cs ps)"

definition endswith :: "pystr \<Rightarrow> pystr \<Rightarrow> bool" where
  "endswith s p = startswith (rev s) (rev p)"

fun str_contains :: "pystr \<Rightarrow> pystr \<Rightarrow> bool" where
  "str_contains [] q = (q = [])"
| "str_contains (c # cs) q = (startswith (c # cs) q \<or> str_contains cs q)"

text \<open>The slices \<^verbatim>\<open>s[-n:]\<close> (for positive \<open>n\<close>) and \<^verbatim>\<open>s[1:]\<close>.\<close>

definition slice_last :: "nat \<Rightarrow> pystr \<Rightarrow> pystr" where
  "slice_last n s = drop (length s - n) s"

definition slice_from1 :: "pystr \<Rightarrow> pystr" where
  "slice_from1 s = drop 1 s"

section \<open>Normalisation\<close>

text \<open>
  \<^verbatim>\<open>normalize_phone\<close>: the three accepting branches in the order of the source, with the
  suffix test and the length test of the third branch as written there.
\<close>

definition normalize_phone_str :: "pystr \<Rightarrow> pystr option" where
  "normalize_phone_str phone =
     (let digits = re_sub_nondigit phone in
      if length digits = 10 then Some digits
      else if length digits = 11 \<and> startswith digits (py ''0'') then Some (slice_from1 digits)
      else if length digits \<ge> 12 \<and> endswith digits (slice_last 10 (re_sub_nondigit phone))
      then (let last10 = slice_last 10 digits in
            if length last10 = 10 then Some last10 else None)
      else None)"

fun normalize_phone :: "pyval \<Rightarrow> pystr option" where
  "normalize_phone (VStr phone) = normalize_phone_str phone"
| "normalize_phone v = None"

definition normalize_name_str :: "pystr \<Rightarrow> pystr option" where
  "normalize_name_str name = (let n = strip name in if n \<noteq> [] then Some n else None)"

fun normalize_name :: "pyval \<Rightarrow> pystr option" where
  "normalize_name (VStr name) = normalize_name_str name"
| "normalize_name v = None"

section \<open>The contact store\<close>

text \<open>
  A contact is the dictionary \<^verbatim>\<open>{"name": ..., "phone": ...}\<close> the code builds; both
  fields are always strings. The store holds the ordered dictionary \<^verbatim>\<open>contacts\<close>
  (key to contact, in insertion order) and the list \<^verbatim>\<open>contacts_list\<close>.
\<close>

record contact =
  name :: pystr
  phone :: pystr

type_synonym odict = "(pystr \<times> contact) list"

record store =
  contacts :: odict
  contacts_list :: "contact list"

definition empty_store :: store where
  "empty_store = \<lparr>contacts = [], contacts_list = []\<rparr>"

text \<open>An exception is its class and its message.\<close>

datatype exc_class =
    ValueError | KeyError | AttributeError
  | UnicodeDecodeError | UnicodeEncodeError | RecursionError | PermissionError

type_synonym exn = "exc_class \<times> pystr"

subsection \<open>Dictionary operations\<close>

text \<open>\<^verbatim>\<open>key in d\<close>.\<close>

definition od_contains :: "pystr \<Rightarrow> odict \<Rightarrow> bool" where
  "od_contains k d = (k \<in> set (map fst d))"

text \<open>\<^verbatim>\<open>d[key] = v\<close>: a present key keeps its position, a new key goes to the end.\<close>

fun od_set :: "pystr \<Rightarrow> contact \<Rightarrow> odict \<Rightarrow> odict" where
  "od_set k v [] = [(k, v)]"
| "od_set k v ((k', v') # d) = (if k' = k then (k, v) # d else (k', v') # od_set k v d)"

text \<open>\<^verbatim>\<open>d.pop(key)\<close>: the value and the remaining dictionary; \<open>None\<close> where Python raises
  \<^verbatim>\<open>KeyError\<close>.\<close>

fun od_pop :: "pystr \<Rightarrow> odict \<Rightarrow> (contact \<times> odict) option" where
  "od_pop k [] = None"
| "od_pop k ((k', v') # d) =
     (if k' = k then Some (v', d)
      else case od_pop k d of
             None \<Rightarrow> None
           | Some (v, d') \<Rightarrow> Some (v, (k', v') # d'))"

text \<open>\<^verbatim>\<open>raw.get(key, default)\<close> on a parsed JSON object.\<close>

definition dict_get :: "(pystr \<times> pyval) list \<Rightarrow> pystr \<Rightarrow> pyval \<Rightarrow> pyval" where
  "dict_get raw k dflt = (case map_of raw k of Some v \<Rightarrow> v | None \<Rightarrow> dflt)"

subsection \<open>Adding a contact\<close>

text \<open>
  \<^verbatim>\<open>add_contact\<close> returns the raised exception or the stored contact, together with the
  store after the call. The tests \<^verbatim>\<open>if not name_clean\<close> and \<^verbatim>\<open>if not phone_norm\<close> hold for
  \<^verbatim>\<open>None\<close> and for the empty string.
\<close>

definition add_contact :: "store \<Rightarrow> pyval \<Rightarrow> pyval \<Rightarrow> (exn + contact) \<times> store" where
  "add_contact st nm ph =
     (case normalize_name nm of
        None \<Rightarrow> (Inl (ValueError, py ''Name is required.''), st)
      | Some name_clean \<Rightarrow>
          if name_clean = [] then (Inl (ValueError, py ''Name is required.''), st)
          else
            case normalize_phone ph of
              None \<Rightarrow> (Inl (ValueError,
                py ''Phone is invalid. Provide a valid 10-digit number (country code allowed).''), st)
            | Some phone_norm \<Rightarrow>
                if phone_norm = []
                then (Inl (ValueError,
                  py ''Phone is invalid. Provide a valid 10-digit number (country code allowed).''), st)
                else
                  let key = phone_norm in
                  if od_contains key (contacts st)
                  then (Inl (ValueError, py ''Phone already exists.''), st)
                  else
                    let c = \<lparr>name = name_clean, phone = phone_norm\<rparr> in
                    (Inr c, \<lparr>contacts = od_set key c (contacts st),
                             contacts_list = contacts_list st @ [c]\<rparr>))"

subsection \<open>Searching\<close>

text \<open>The generator \<^verbatim>\<open>search\<close> is modelled by the list of the records it yields.\<close>

fun search_loop :: "pystr \<Rightarrow> contact list \<Rightarrow> contact list" where
  "search_loop q [] = []"
| "search_loop q (c # cs) =
     (if str_contains (lower (name c)) q \<or> str_contains (phone c) q
      then c # search_loop q cs else search_loop q cs)"

fun search :: "store \<Rightarrow> pyval \<Rightarrow> contact list" where
  "search st (VStr query) =
     (let q = lower (strip query) in
      if q = [] then [] else search_loop q (contacts_list st))"
| "search st v = []"

subsection \<open>Deleting\<close>

text \<open>\<^verbatim>\<open>_remove_from_list\<close>: the first list element with the same name and phone goes.\<close>

fun remove_from_list :: "contact \<Rightarrow> contact list \<Rightarrow> contact list" where
  "remove_from_list ct [] = []"
| "remove_from_list ct (c # cs) =
     (if name c = name ct \<and> phone c = phone ct then cs else c # remove_from_list ct cs)"

text \<open>\<^verbatim>\<open>contact = self.contacts.pop(key); self._remove_from_list(contact)\<close>.\<close>

definition pop_and_remove :: "pystr \<Rightarrow> store \<Rightarrow> exn + store" where
  "pop_and_remove key st =
     (case od_pop key (contacts st) of
        None \<Rightarrow> Inl (KeyError, key)
      | Some (ct, d) \<Rightarrow>
          Inr \<lparr>contacts = d, contacts_list = remove_from_list ct (contacts_list st)\<rparr>)"

text \<open>The loop over the snapshot \<^verbatim>\<open>list(self.contacts.items())\<close>.\<close>

fun delete_loop :: "odict \<Rightarrow> pystr \<Rightarrow> bool \<Rightarrow> store \<Rightarrow> (exn + bool) \<times> store" where
  "delete_loop [] target removed_any st = (Inr removed_any, st)"
| "delete_loop ((key, val) # items) target removed_any st =
     (if lower (name val) = target
      then (case pop_and_remove key st of
              Inl e \<Rightarrow> (Inl e, st)
            | Inr st' \<Rightarrow> delete_loop items target True st')
      else delete_loop items target removed_any st)"

definition delete_by_name :: "store \<Rightarrow> pystr \<Rightarrow> (exn + bool) \<times> store" where
  "delete_by_name st s = delete_loop (contacts st) (lower (strip s)) False st"

fun delete :: "store \<Rightarrow> pyval \<Rightarrow> (exn + bool) \<times> store" where
  "delete st (VStr s) =
     (if strip s = [] then (Inr False, st)
      else
        case normalize_phone (VStr s) of
          None \<Rightarrow> delete_by_name st s
        | Some phone_key \<Rightarrow>
            if phone_key \<noteq> [] \<and> od_contains phone_key (contacts st)
            then (case pop_and_remove phone_key st of
                    Inl e \<Rightarrow> (Inl e, st)
                  | Inr st' \<Rightarrow> (Inr True, st'))
            else delete_by_name st s)"
| "delete st v = (Inr False, st)"

subsection \<open>Loading and saving\<close>

text \<open>
  What \<^verbatim>\<open>open\<close> followed by \<^verbatim>\<open>json.load\<close> does with the content of the file: it
  raises \<^verbatim>\<open>FileNotFoundError\<close> when there is no file, \<^verbatim>\<open>json.JSONDecodeError\<close> when the
  text is not JSON, some other exception (\<^verbatim>\<open>UnicodeDecodeError\<close> when the bytes are not
  UTF-8, a plain \<^verbatim>\<open>ValueError\<close> when an integer has more digits than the interpreter
  converts, \<^verbatim>\<open>RecursionError\<close> when the nesting is too deep, \<^verbatim>\<open>PermissionError\<close> when the
  file may not be read), or it returns the parsed value. A plain \<^verbatim>\<open>ValueError\<close> is not a
  \<^verbatim>\<open>JSONDecodeError\<close>.
\<close>

datatype read_result = FileNotFoundError | JSONDecodeError | Raised exn | Data pyval

text \<open>\<^verbatim>\<open>name.lower()\<close> on an \<^verbatim>\<open>Optional[str]\<close>: \<^verbatim>\<open>None\<close> has no such method.\<close>

fun lower_opt :: "pystr option \<Rightarrow> exn + pystr" where
  "lower_opt None = Inl (AttributeError, py ''lower'')"
| "lower_opt (Some n) = Inr (lower n)"

text \<open>One iteration of the loop of \<^verbatim>\<open>load\<close>: the exception it raises, if any, and the store.\<close>

fun load_entry :: "pyval \<Rightarrow> store \<Rightarrow> exn option \<times> store" where
  "load_entry (VDict raw) st =
     (let nm = normalize_name (dict_get raw (py ''name'') (VStr []));
          phone_norm = (if truthy (dict_get raw (py ''phone'') VNone)
                        then normalize_phone (dict_get raw (py ''phone'') (VStr [])) else None)
      in
      if \<not> opt_truthy nm \<and> \<not> opt_truthy phone_norm then (None, st)
      else
        case (case phone_norm of
                Some p \<Rightarrow> if p \<noteq> [] then Inr p else lower_opt nm
              | None \<Rightarrow> lower_opt nm) of
          Inl e \<Rightarrow> (Some e, st)
        | Inr key \<Rightarrow>
            if od_contains key (contacts st) then (None, st)
            else
              let c = \<lparr>name = or_empty nm, phone = or_empty phone_norm\<rparr> in
              (None, \<lparr>contacts = od_set key c (contacts st),
                      contacts_list = contacts_list st @ [c]\<rparr>))"
| "load_entry v st = (None, st)"

fun load_loop :: "pyval list \<Rightarrow> store \<Rightarrow> exn option \<times> store" where
  "load_loop [] st = (None, st)"
| "load_loop (raw # rest) st =
     (case load_entry raw st of
        (Some e, st') \<Rightarrow> (Some e, st')
      | (None, st') \<Rightarrow> load_loop rest st')"

text \<open>
  \<^verbatim>\<open>load\<close> clears both containers before it reads. Its \<^verbatim>\<open>try\<close> statement catches
  \<^verbatim>\<open>FileNotFoundError\<close> and \<^verbatim>\<open>json.JSONDecodeError\<close> only; any other exception leaves
  \<^verbatim>\<open>load\<close>, with the containers already cleared.
\<close>

fun load :: "store \<Rightarrow> read_result \<Rightarrow> exn option \<times> store" where
  "load st FileNotFoundError = (None, empty_store)"
| "load st JSONDecodeError = (None, empty_store)"
| "load st (Raised e) = (Some e, empty_store)"
| "load st (Data (VList data)) = load_loop data empty_store"
| "load st (Data v) = (None, empty_store)"

text \<open>
  \<^verbatim>\<open>save\<close> opens the file for writing. When \<^verbatim>\<open>open\<close> raises (a missing directory, no
  permission), the exception leaves \<^verbatim>\<open>save\<close> and the file is as it was. Otherwise the file
  is emptied and \<^verbatim>\<open>json.dump\<close> writes the text of \<^verbatim>\<open>contacts_list\<close> piece by piece, with
  \<^verbatim>\<open>ensure_ascii=False\<close>, so every character goes to the UTF-8 encoder as it is. When all
  characters can be encoded, reading the file back parses to the same list. A string with a
  lone surrogate makes the write raise \<^verbatim>\<open>UnicodeEncodeError\<close>; the file keeps the text
  written so far, which opens the list and does not close it, so reading it back raises
  \<^verbatim>\<open>json.JSONDecodeError\<close>. \<^verbatim>\<open>save\<close> takes the store, the content of the file and the
  exception \<^verbatim>\<open>open\<close> raises, if any; the result is the exception that leaves \<^verbatim>\<open>save\<close>, if
  any, and the content of the file.
\<close>

definition contact_json :: "contact \<Rightarrow> pyval" where
  "contact_json c = VDict [(py ''name'', VStr (name c)), (py ''phone'', VStr (phone c))]"

definition dump_ok :: "contact list \<Rightarrow> bool" where
  "dump_ok cs =
     list_all (\<lambda>c. list_all utf8_encodable (name c) \<and> list_all utf8_encodable (phone c)) cs"

definition save :: "store \<Rightarrow> read_result \<Rightarrow> exn option \<Rightarrow> exn option \<times> read_result" where
  "save st f open_error =
     (case open_error of
        Some e \<Rightarrow> (Some e, f)
      | None \<Rightarrow>
          if dump_ok (contacts_list st)
          then (None, Data (VList (map contact_json (contacts_list st))))
          else (Some (UnicodeEncodeError, py ''surrogates not allowed''), JSONDecodeError))"

subsection \<open>Reachable states\<close>

text \<open>
  A state is the store of a \<^verbatim>\<open>ContactManager\<close> and the content of its file. The constructor
  starts from empty containers and calls \<^verbatim>\<open>load\<close>; then any of the four operations runs,
  whatever it returns or raises.
\<close>

inductive reachable :: "store \<times> read_result \<Rightarrow> bool" where
  r_init: "load empty_store f = (r, st) \<Longrightarrow> reachable (st, f)"
| r_add: "reachable (st, f) \<Longrightarrow> add_contact st nm ph = (ra, st') \<Longrightarrow> reachable (st', f)"
| r_delete: "reachable (st, f) \<Longrightarrow> delete st v = (rd, st') \<Longrightarrow> reachable (st', f)"
| r_load: "reachable (st, f) \<Longrightarrow> load st f = (r, st') \<Longrightarrow> reachable (st', f)"
| r_save: "reachable (st, f) \<Longrightarrow> save st f oe = (r, f') \<Longrightarrow> reachable (st, f')"

text \<open>The derived key of a stored record: its phone if it has one, else its lowercased name.\<close>

definition derived_key :: "contact \<Rightarrow> pystr" where
  "derived_key c = (if phone c \<noteq> [] then phone c else lower (name c))"

subsection \<open>Well-formed stores\<close>

text \<open>
  A string is trimmed when \<^verbatim>\<open>strip\<close> has nothing to remove. A stored contact has a trimmed
  name, a phone that is empty or ten digits, and not both empty. In a well-formed store the
  dictionary has each key once, every key is the derived key of its contact, and the list
  holds the dictionary's values in order.
\<close>

definition trimmed :: "pystr \<Rightarrow> bool" where
  "trimmed s = (s = [] \<or> (\<not> is_space (hd s) \<and> \<not> is_space (last s)))"

definition all_digits :: "pystr \<Rightarrow> bool" where
  "all_digits s = list_all is_digit s"

definition valid_contact :: "contact \<Rightarrow> bool" where
  "valid_contact c =
     (trimmed (name c)
      \<and> (phone c = [] \<or> (length (phone c) = 10 \<and> all_digits (phone c)))
      \<and> (name c \<noteq> [] \<or> phone c \<noteq> []))"

definition store_inv :: "store \<Rightarrow> bool" where
  "store_inv st =
     (distinct (map fst (contacts st))
      \<and> contacts_list st = map snd (contacts st)
      \<and> list_all (\<lambda>kc. fst kc = derived_key (snd kc) \<and> valid_contact (snd kc)) (contacts st))"

subsection \<open>The import policy in the words of the specification\<close>

text \<open>
  Entries are taken in order; an entry that is not an object, or whose name and phone both
  fail to normalise, is skipped; the key is the normalised phone if there is one, else the
  lowercased trimmed name; an entry whose key is already there is skipped.
\<close>

definition entry_name :: "(pystr \<times> pyval) list \<Rightarrow> pystr option" where
  "entry_name raw = (case map_of raw (py ''name'') of Some v \<Rightarrow> normalize_name v | None \<Rightarrow> None)"

definition entry_phone :: "(pystr \<times> pyval) list \<Rightarrow> pystr option" where
  "entry_phone raw = (case map_of raw (py ''phone'') of Some v \<Rightarrow> normalize_phone v | None \<Rightarrow> None)"

definition insert_new :: "pystr \<Rightarrow> contact \<Rightarrow> odict \<Rightarrow> odict" where
  "insert_new k c acc = (if k \<in> set (map fst acc) then acc else acc @ [(k, c)])"

fun import_entry :: "pyval \<Rightarrow> odict \<Rightarrow> odict" where
  "import_entry (VDict raw) acc =
     (case (entry_phone raw, entry_name raw) of
        (None, None) \<Rightarrow> acc
      | (None, Some n) \<Rightarrow> insert_new (lower n) \<lparr>name = n, phone = []\<rparr> acc
      | (Some p, None) \<Rightarrow> insert_new p \<lparr>name = [], phone = p\<rparr> acc
      | (Some p, Some n) \<Rightarrow> insert_new p \<lparr>name = n, phone = p\<rparr> acc)"
| "import_entry v acc = acc"

fun import_all :: "pyval list \<Rightarrow> odict \<Rightarrow> odict" where
  "import_all [] acc = acc"
| "import_all (e # es) acc = import_all es (import_entry e acc)"

definition store_of :: "odict \<Rightarrow> store" where
  "store_of d = \<lparr>contacts = d, contacts_list = map snd d\<rparr>"

subsection \<open>Sessions that only add\<close>

text \<open>
  A run of \<^verbatim>\<open>add_contact\<close> calls with string arguments (of code points below 256),
  whatever each call returns.
\<close>

fun add_all :: "(string \<times> string) list \<Rightarrow> store \<Rightarrow> store" where
  "add_all [] st = st"
| "add_all ((n, p) # rest) st = add_all rest (snd (add_contact st (VStr (py n)) (VStr (py p))))"

section \<open>Facts about strings\<close>

lemma py_eq_iff [simp]: "py a = py b \<longleftrightarrow> a = b"
  by (simp add: py_def inj_map_eq_map inj_def)

lemma py_Nil_iff [simp]: "py a = [] \<longleftrightarrow> a = []"
  by (simp add: py_def)

lemma startswith_append: "startswith (p @ s) p"
  by (induction p) auto

lemma endswith_slice_last: "endswith s (slice_last n s)"
proof -
  have "rev s = rev (drop (length s - n) s) @ rev (take (length s - n) s)"
    by (metis append_take_drop_id rev_append)
  then show ?thesis
    unfolding endswith_def slice_last_def by (metis startswith_append)
qed

lemma length_slice_last: "n \<le> length s \<Longrightarrow> length (slice_last n s) = n"
  by (simp add: slice_last_def)

lemma startswith_iff: "startswith s p \<longleftrightarrow> (\<exists>b. s = p @ b)"
  by (induction s p rule: startswith.induct) auto

lemma str_contains_iff: "str_contains s q \<longleftrightarrow> (\<exists>a b. s = a @ q @ b)"
proof (induction s)
  case Nil
  then show ?case by auto
next
  case (Cons c cs)
  show ?case
  proof
    assume "str_contains (c # cs) q"
    then consider "startswith (c # cs) q" | "str_contains cs q" by auto
    then show "\<exists>a b. c # cs = a @ q @ b"
    proof cases
      case 1
      then obtain b where "c # cs = q @ b" by (auto simp: startswith_iff)
      then have "c # cs = [] @ q @ b" by simp
      then show ?thesis by blast
    next
      case 2
      then obtain a b where "cs = a @ q @ b" using Cons.IH by auto
      then have "c # cs = (c # a) @ q @ b" by simp
      then show ?thesis by blast
    qed
  next
    assume "\<exists>a b. c # cs = a @ q @ b"
    then obtain a b where ab: "c # cs = a @ q @ b" by auto
    show "str_contains (c # cs) q"
    proof (cases a)
      case Nil
      then have "startswith (c # cs) q" using ab by (auto simp: startswith_iff)
      then show ?thesis by simp
    next
      case (Cons x a')
      then have "cs = a' @ q @ b" using ab by simp
      then have "str_contains cs q" using Cons.IH by blast
      then show ?thesis by simp
    qed
  qed
qed

lemma str_contains_refl: "str_contains s s"
  using str_contains_iff [of s s] by (metis append_Nil append_Nil2)

lemma last_dropWhile: "dropWhile P xs \<noteq> [] \<Longrightarrow> last (dropWhile P xs) = last xs"
  by (induction xs) (auto split: if_splits)

lemma trimmed_strip: "trimmed (strip s)"
proof -
  define u where "u = dropWhile is_space s"
  define v where "v = dropWhile is_space (rev u)"
  have s: "strip s = rev v" by (simp add: strip_def u_def v_def)
  show ?thesis
  proof (cases "v = []")
    case True
    then show ?thesis by (simp add: s trimmed_def)
  next
    case False
    then have hv: "\<not> is_space (hd v)" unfolding v_def by (metis hd_dropWhile)
    from False have "rev u \<noteq> []" unfolding v_def by auto
    then have une: "u \<noteq> []" by simp
    then have hu: "\<not> is_space (hd u)" unfolding u_def by (metis hd_dropWhile)
    have "last v = last (rev u)" using False unfolding v_def by (rule last_dropWhile)
    then have "last v = hd u" using une by (simp add: last_rev)
    then show ?thesis using hv hu False by (simp add: s trimmed_def hd_rev last_rev)
  qed
qed

lemma strip_trimmed: "trimmed s \<Longrightarrow> strip s = s"
proof (cases s)
  case Nil
  then show ?thesis by (simp add: strip_def)
next
  case (Cons c cs)
  assume "trimmed s"
  then have h: "\<not> is_space (hd s)" and l: "\<not> is_space (last s)"
    using Cons by (auto simp: trimmed_def)
  have 1: "dropWhile is_space s = s" using h Cons by simp
  have "rev s \<noteq> []" using Cons by simp
  moreover have "hd (rev s) = last s" using Cons by (simp add: hd_rev)
  ultimately have 2: "dropWhile is_space (rev s) = rev s"
    using l by (simp add: dropWhile_eq_self_iff)
  show ?thesis by (simp add: strip_def 1 2)
qed


subsection \<open>Normalisation results and dictionary operations\<close>

lemma normalize_phone_str_Some:
  assumes "normalize_phone_str s = Some p"
  shows "length p = 10 \<and> all_digits p"
proof -
  define d where "d = filter is_digit s"
  have ad: "all_digits d" by (simp add: d_def all_digits_def list_all_iff)
  have dr: "all_digits (drop n d)" for n
    using ad by (auto simp: all_digits_def list_all_iff dest: in_set_dropD)
  from assms show ?thesis
    using ad dr
    by (auto simp: normalize_phone_str_def re_sub_nondigit_def Let_def d_def [symmetric]
        slice_from1_def slice_last_def split: if_splits)
qed

lemma normalize_phone_Some:
  "normalize_phone v = Some p \<Longrightarrow> length p = 10 \<and> all_digits p"
  by (cases v) (auto dest: normalize_phone_str_Some)

lemma normalize_phone_nonempty: "normalize_phone v = Some p \<Longrightarrow> p \<noteq> []"
  by (auto dest: normalize_phone_Some)

lemma normalize_phone_valid:
  "length p = 10 \<Longrightarrow> all_digits p \<Longrightarrow> normalize_phone (VStr p) = Some p"
  by (simp add: normalize_phone_str_def re_sub_nondigit_def all_digits_def list_all_iff)

lemma normalize_name_Some:
  "normalize_name v = Some n \<Longrightarrow> n \<noteq> [] \<and> trimmed n \<and> (\<exists>s. v = VStr s \<and> n = strip s)"
  by (cases v) (auto simp: normalize_name_str_def Let_def trimmed_strip split: if_splits)

lemma od_set_absent: "\<not> od_contains k d \<Longrightarrow> od_set k v d = d @ [(k, v)]"
  by (induction d) (auto simp: od_contains_def)

lemma od_pop_present:
  "distinct (map fst d) \<Longrightarrow> (k, v) \<in> set d \<Longrightarrow>
   od_pop k d = Some (v, filter (\<lambda>kv. fst kv \<noteq> k) d)"
proof (induction d)
  case Nil
  then show ?case by simp
next
  case (Cons a d)
  obtain k' v' where a: "a = (k', v')" by (cases a)
  show ?case
  proof (cases "k' = k")
    case True
    then have "v' = v" using Cons.prems a by (auto simp: rev_image_eqI)
    moreover have "filter (\<lambda>kv. fst kv \<noteq> k) d = d"
      using Cons.prems a True by (auto simp: filter_id_conv rev_image_eqI)
    ultimately show ?thesis using a True by simp
  next
    case False
    then show ?thesis using Cons a by auto
  qed
qed

lemma od_contains_iff: "od_contains k d \<longleftrightarrow> (\<exists>v. (k, v) \<in> set d)"
  by (force simp: od_contains_def)

lemma remove_from_list_remove1: "remove_from_list ct cs = remove1 ct cs"
  by (induction cs) auto

lemma remove1_values:
  "distinct (map snd d) \<Longrightarrow> distinct (map fst d) \<Longrightarrow> (k, c) \<in> set d \<Longrightarrow>
   remove1 c (map snd d) = map snd (filter (\<lambda>kv. fst kv \<noteq> k) d)"
proof (induction d)
  case Nil
  then show ?case by simp
next
  case (Cons a d)
  obtain k' v' where a: "a = (k', v')" by (cases a)
  show ?case
  proof (cases "k' = k")
    case True
    then have "v' = c" using Cons.prems a by (auto simp: rev_image_eqI)
    moreover have "filter (\<lambda>kv. fst kv \<noteq> k) d = d"
      using Cons.prems a True by (auto simp: filter_id_conv rev_image_eqI)
    ultimately show ?thesis using a True by simp
  next
    case False
    then have "(k, c) \<in> set d" using Cons.prems a by auto
    moreover have "v' \<noteq> c" using Cons.prems a \<open>(k, c) \<in> set d\<close> by (auto simp: rev_image_eqI)
    ultimately show ?thesis using Cons a False by auto
  qed
qed

lemma keys_derived:
  "list_all (\<lambda>kc. fst kc = f (snd kc) \<and> Q (snd kc)) d \<Longrightarrow> map fst d = map f (map snd d)"
  by (induction d) auto

lemma store_inv_keys: "store_inv st \<Longrightarrow> map fst (contacts st) = map derived_key (contacts_list st)"
  by (auto simp: store_inv_def list_all_iff)

lemma store_inv_values_distinct:
  assumes "store_inv st"
  shows "distinct (map snd (contacts st))"
proof -
  have e: "map fst (contacts st) = map derived_key (map snd (contacts st))"
    using assms by (auto simp: store_inv_def list_all_iff)
  have "distinct (map fst (contacts st))"
    using assms by (simp add: store_inv_def)
  then have "distinct (map derived_key (map snd (contacts st)))"
    unfolding e .
  then show ?thesis using distinct_map by blast
qed

lemma store_inv_filter:
  assumes "store_inv st"
  shows "store_inv (store_of (filter P (contacts st)))"
  using assms by (auto simp: store_inv_def store_of_def distinct_map_filter list_all_iff)

lemma pop_and_remove_inv:
  assumes inv: "store_inv st" and mem: "(k, c) \<in> set (contacts st)"
  shows "pop_and_remove k st = Inr (store_of (filter (\<lambda>kv. fst kv \<noteq> k) (contacts st)))"
proof -
  have d: "distinct (map fst (contacts st))" using inv by (simp add: store_inv_def)
  have l: "contacts_list st = map snd (contacts st)" using inv by (simp add: store_inv_def)
  have pop: "od_pop k (contacts st) = Some (c, filter (\<lambda>kv. fst kv \<noteq> k) (contacts st))"
    using d mem by (rule od_pop_present)
  have "remove_from_list c (contacts_list st)
        = map snd (filter (\<lambda>kv. fst kv \<noteq> k) (contacts st))"
    unfolding remove_from_list_remove1 l
    using store_inv_values_distinct [OF inv] d mem by (rule remove1_values)
  then show ?thesis by (simp add: pop_and_remove_def pop store_of_def)
qed

subsection \<open>Adding and importing keep the store well formed\<close>

lemma add_contact_cases:
  "add_contact st nm ph =
     (case normalize_name nm of
        None \<Rightarrow> (Inl (ValueError, py ''Name is required.''), st)
      | Some n \<Rightarrow>
          (case normalize_phone ph of
             None \<Rightarrow> (Inl (ValueError,
               py ''Phone is invalid. Provide a valid 10-digit number (country code allowed).''), st)
           | Some p \<Rightarrow>
               if od_contains p (contacts st)
               then (Inl (ValueError, py ''Phone already exists.''), st)
               else (Inr \<lparr>name = n, phone = p\<rparr>,
                     \<lparr>contacts = contacts st @ [(p, \<lparr>name = n, phone = p\<rparr>)],
                      contacts_list = contacts_list st @ [\<lparr>name = n, phone = p\<rparr>]\<rparr>)))"
proof (cases "normalize_name nm")
  case None
  then show ?thesis by (simp add: add_contact_def)
next
  case (Some n)
  then have n: "n \<noteq> []" by (auto dest: normalize_name_Some)
  show ?thesis
  proof (cases "normalize_phone ph")
    case None
    then show ?thesis using Some n by (simp add: add_contact_def)
  next
    case (Some p)
    then have p: "p \<noteq> []" by (rule normalize_phone_nonempty)
    show ?thesis
      using \<open>normalize_name nm = Some n\<close> Some n p
      by (simp add: add_contact_def Let_def od_set_absent)
  qed
qed

lemma store_inv_empty: "store_inv empty_store"
  by (simp add: store_inv_def empty_store_def)

lemma store_inv_store_of: "store_inv st \<Longrightarrow> store_of (contacts st) = st"
  by (simp add: store_inv_def store_of_def)

lemma store_inv_append:
  assumes "store_inv (store_of d)" and "k \<notin> set (map fst d)"
    and "k = derived_key c" and "valid_contact c"
  shows "store_inv (store_of (d @ [(k, c)]))"
  using assms by (auto simp: store_inv_def store_of_def)

lemma valid_contact_added:
  assumes "normalize_name nm = Some n" and "normalize_phone ph = Some p"
  shows "valid_contact \<lparr>name = n, phone = p\<rparr> \<and> derived_key \<lparr>name = n, phone = p\<rparr> = p"
  using normalize_name_Some [OF assms(1)] normalize_phone_Some [OF assms(2)]
  by (auto simp: valid_contact_def derived_key_def)

lemma add_contact_inv:
  assumes inv: "store_inv st" and add: "add_contact st nm ph = (r, st')"
  shows "store_inv st'"
proof (cases "normalize_name nm")
  case None
  then show ?thesis using add inv by (simp add: add_contact_cases)
next
  case n: (Some n)
  show ?thesis
  proof (cases "normalize_phone ph")
    case None
    then show ?thesis using add inv n by (simp add: add_contact_cases)
  next
    case p: (Some p)
    show ?thesis
    proof (cases "od_contains p (contacts st)")
      case True
      then show ?thesis using add inv n p by (simp add: add_contact_cases)
    next
      case False
      define c where "c = \<lparr>name = n, phone = p\<rparr>"
      have st': "st' = store_of (contacts st @ [(p, c)])"
        using add n p False inv
        by (auto simp: add_contact_cases store_of_def c_def store_inv_def)
      have "store_inv (store_of (contacts st))"
        using inv by (simp add: store_inv_store_of)
      then show ?thesis
        unfolding st'
        using False valid_contact_added [OF n p]
        by (intro store_inv_append) (auto simp: od_contains_def c_def)
    qed
  qed
qed

lemma insert_new_inv:
  assumes "store_inv (store_of d)" and "k = derived_key c" and "valid_contact c"
  shows "store_inv (store_of (insert_new k c d))"
  using assms by (auto simp: insert_new_def intro: store_inv_append)

lemma entry_name_Some:
  "entry_name raw = Some n \<Longrightarrow> n \<noteq> [] \<and> trimmed n"
  by (auto simp: entry_name_def split: option.splits dest: normalize_name_Some)

lemma entry_phone_Some:
  "entry_phone raw = Some p \<Longrightarrow> length p = 10 \<and> all_digits p"
  by (auto simp: entry_phone_def split: option.splits dest: normalize_phone_Some)

lemma import_entry_inv:
  assumes "store_inv (store_of d)"
  shows "store_inv (store_of (import_entry e d))"
proof (cases e)
  case (VDict raw)
  show ?thesis
  proof (cases "entry_phone raw")
    case None
    show ?thesis
    proof (cases "entry_name raw")
      case n: None
      then show ?thesis using assms None VDict by simp
    next
      case (Some n)
      then show ?thesis
        using assms None VDict entry_name_Some [OF Some]
        by (auto intro!: insert_new_inv simp: derived_key_def valid_contact_def)
    qed
  next
    case p: (Some p)
    have pp: "length p = 10 \<and> all_digits p" using p by (rule entry_phone_Some)
    show ?thesis
    proof (cases "entry_name raw")
      case None
      then show ?thesis
        using assms p VDict pp
        by (auto intro!: insert_new_inv simp: derived_key_def valid_contact_def trimmed_def)
    next
      case (Some n)
      then show ?thesis
        using assms p VDict pp entry_name_Some [OF Some]
        by (auto intro!: insert_new_inv simp: derived_key_def valid_contact_def)
    qed
  qed
qed (use assms in simp_all)

lemma import_all_inv:
  "store_inv (store_of d) \<Longrightarrow> store_inv (store_of (import_all es d))"
  by (induction es arbitrary: d) (auto intro: import_entry_inv)

subsection \<open>Loading follows the import policy\<close>

lemma phone_guard:
  "(if truthy (dict_get raw (py ''phone'') VNone)
    then normalize_phone (dict_get raw (py ''phone'') (VStr [])) else None) = entry_phone raw"
proof (cases "map_of raw (py ''phone'')")
  case None
  then show ?thesis by (simp add: dict_get_def entry_phone_def)
next
  case (Some v)
  have "\<not> truthy v \<Longrightarrow> normalize_phone v = None"
    by (cases v) (simp_all add: normalize_phone_str_def re_sub_nondigit_def)
  then show ?thesis using Some by (auto simp: dict_get_def entry_phone_def)
qed

lemma name_default: "normalize_name (dict_get raw (py ''name'') (VStr [])) = entry_name raw"
  by (cases "map_of raw (py ''name'')")
     (simp_all add: dict_get_def entry_name_def normalize_name_str_def strip_def)

lemma insert_new_store:
  "(if od_contains k d then (None, store_of d)
    else (None, \<lparr>contacts = od_set k c d, contacts_list = map snd d @ [c]\<rparr>))
   = (None :: exn option, store_of (insert_new k c d))"
  by (simp add: insert_new_def store_of_def od_set_absent od_contains_def)

lemma load_entry_import:
  "load_entry e (store_of d) = (None, store_of (import_entry e d))"
proof (cases e)
  case (VDict raw)
  have c: "contacts (store_of d) = d" and l: "contacts_list (store_of d) = map snd d"
    by (simp_all add: store_of_def)
  show ?thesis
  proof (cases "entry_phone raw")
    case None
    show ?thesis
    proof (cases "entry_name raw")
      case n: None
      then show ?thesis using None VDict by (simp add: phone_guard name_default)
    next
      case (Some n)
      then have "n \<noteq> []" by (auto dest: entry_name_Some)
      then show ?thesis
        using None Some VDict insert_new_store [of "lower n" d "\<lparr>name = n, phone = []\<rparr>"]
        by (auto simp: phone_guard name_default c l Let_def split: if_splits)
    qed
  next
    case p: (Some p)
    then have pp: "p \<noteq> []" by (auto dest: entry_phone_Some)
    show ?thesis
    proof (cases "entry_name raw")
      case None
      then show ?thesis
        using p pp VDict insert_new_store [of p d "\<lparr>name = [], phone = p\<rparr>"]
        by (auto simp: phone_guard name_default c l Let_def split: if_splits)
    next
      case (Some n)
      then have "n \<noteq> []" by (auto dest: entry_name_Some)
      then show ?thesis
        using p pp Some VDict insert_new_store [of p d "\<lparr>name = n, phone = p\<rparr>"]
        by (auto simp: phone_guard name_default c l Let_def split: if_splits)
    qed
  qed
qed simp_all

lemma load_loop_import:
  "load_loop es (store_of d) = (None, store_of (import_all es d))"
  by (induction es arbitrary: d) (simp_all add: load_entry_import)

lemma empty_store_of: "empty_store = store_of []"
  by (simp add: empty_store_def store_of_def)

lemma load_import:
  "load st src =
     (case src of
        Raised e \<Rightarrow> (Some e, empty_store)
      | Data (VList xs) \<Rightarrow> (None, store_of (import_all xs []))
      | _ \<Rightarrow> (None, empty_store))"
proof (cases src)
  case (Data v)
  then show ?thesis
    by (cases v) (simp_all add: load_loop_import empty_store_of)
qed simp_all

lemma load_inv: "load st src = (r, st') \<Longrightarrow> store_inv st'"
proof -
  assume a: "load st src = (r, st')"
  have e: "store_inv (store_of [])" using store_inv_empty by (simp add: empty_store_of)
  then have "store_inv (store_of (import_all xs []))" for xs by (rule import_all_inv)
  then show ?thesis
    using a e unfolding load_import
    by (auto simp: empty_store_of split: read_result.splits pyval.splits)
qed

subsection \<open>Deleting keeps the store well formed\<close>

lemma contacts_store_of: "contacts (store_of d) = d"
  by (simp add: store_of_def)


lemma store_inv_key_unique:
  assumes "store_inv st" and "(k, c) \<in> set (contacts st)" and "(k, c') \<in> set (contacts st)"
  shows "c = c'"
proof -
  have "distinct (map fst (contacts st))" using assms(1) by (simp add: store_inv_def)
  then show ?thesis using assms(2,3) by (meson eq_key_imp_eq_value)
qed

lemma delete_loop_inv:
  assumes "store_inv st" and "set items \<subseteq> set (contacts st)" and "distinct (map fst items)"
  shows "delete_loop items target r st =
           (Inr (r \<or> (\<exists>kc\<in>set items. lower (name (snd kc)) = target)),
            store_of (filter (\<lambda>kc. \<not> (kc \<in> set items \<and> lower (name (snd kc)) = target))
                        (contacts st)))"
  using assms
proof (induction items arbitrary: st r)
  case Nil
  then show ?case by (simp add: store_inv_store_of)
next
  case (Cons a items)
  obtain key val where a: "a = (key, val)" by (cases a)
  have mem: "(key, val) \<in> set (contacts st)" using Cons.prems a by simp
  have sub: "set items \<subseteq> set (contacts st)" using Cons.prems by simp
  have dis: "distinct (map fst items)" and fresh: "key \<notin> fst ` set items"
    using Cons.prems a by simp_all
  show ?case
  proof (cases "lower (name val) = target")
    case True
    define st1 where "st1 = store_of (filter (\<lambda>kv. fst kv \<noteq> key) (contacts st))"
    have pop: "pop_and_remove key st = Inr st1"
      unfolding st1_def using Cons.prems(1) mem by (rule pop_and_remove_inv)
    have inv1: "store_inv st1"
      unfolding st1_def using Cons.prems(1) by (rule store_inv_filter)
    have sub1: "set items \<subseteq> set (contacts st1)"
      using sub fresh by (auto simp: st1_def contacts_store_of rev_image_eqI)
    have flt: "filter (\<lambda>kc. \<not> (kc \<in> set items \<and> lower (name (snd kc)) = target)) (contacts st1)
             = filter (\<lambda>kc. \<not> (kc \<in> set (a # items) \<and> lower (name (snd kc)) = target))
                 (contacts st)"
      unfolding st1_def contacts_store_of filter_filter
    proof (rule filter_cong [OF refl])
      fix kc assume kc: "kc \<in> set (contacts st)"
      have "fst kc = key \<longleftrightarrow> kc = (key, val)"
        using store_inv_key_unique [OF Cons.prems(1) _ mem, of "snd kc"] kc
        by (cases kc) auto
      then show "(fst kc \<noteq> key \<and> \<not> (kc \<in> set items \<and> lower (name (snd kc)) = target))
                 = (\<not> (kc \<in> set (a # items) \<and> lower (name (snd kc)) = target))"
        using True a by (cases kc) auto
    qed
    show ?thesis
      using Cons.IH [OF inv1 sub1 dis, of True] True a pop flt by simp
  next
    case False
    have flt: "filter (\<lambda>kc. \<not> (kc \<in> set items \<and> lower (name (snd kc)) = target)) (contacts st)
             = filter (\<lambda>kc. \<not> (kc \<in> set (a # items) \<and> lower (name (snd kc)) = target))
                 (contacts st)"
      using False a by (intro filter_cong [OF refl]) auto
    show ?thesis
      using Cons.IH [OF Cons.prems(1) sub dis, of r] False a flt by simp
  qed
qed

lemma delete_by_name_inv:
  assumes "store_inv st"
  shows "delete_by_name st s =
           (Inr (\<exists>c\<in>set (contacts_list st). lower (name c) = lower (strip s)),
            store_of (filter (\<lambda>kc. lower (name (snd kc)) \<noteq> lower (strip s)) (contacts st)))"
proof -
  have d: "distinct (map fst (contacts st))" and l: "contacts_list st = map snd (contacts st)"
    using assms by (simp_all add: store_inv_def)
  have f: "filter (\<lambda>kc. \<not> (kc \<in> set (contacts st) \<and> lower (name (snd kc)) = lower (strip s)))
             (contacts st)
           = filter (\<lambda>kc. lower (name (snd kc)) \<noteq> lower (strip s)) (contacts st)"
    by (intro filter_cong [OF refl]) auto
  have "delete_loop (contacts st) (lower (strip s)) False st =
          (Inr (False \<or> (\<exists>kc\<in>set (contacts st). lower (name (snd kc)) = lower (strip s))),
           store_of (filter (\<lambda>kc. \<not> (kc \<in> set (contacts st)
                                        \<and> lower (name (snd kc)) = lower (strip s)))
                       (contacts st)))"
    using assms subset_refl d by (rule delete_loop_inv)
  then show ?thesis
    unfolding f delete_by_name_def l by simp
qed

lemma delete_by_phone_inv:
  assumes "store_inv st" and "od_contains k (contacts st)"
  shows "pop_and_remove k st = Inr (store_of (filter (\<lambda>kv. fst kv \<noteq> k) (contacts st)))"
proof -
  obtain c where "(k, c) \<in> set (contacts st)" using assms(2) by (auto simp: od_contains_iff)
  with assms(1) show ?thesis by (rule pop_and_remove_inv)
qed

lemma delete_inv:
  assumes inv: "store_inv st" and del: "delete st v = (r, st')"
  shows "store_inv st'"
proof (cases v)
  case (VStr s)
  have byname: "delete_by_name st s = (r, st') \<Longrightarrow> store_inv st'"
    using delete_by_name_inv [OF inv, of s] store_inv_filter [OF inv] by auto
  show ?thesis
  proof (cases "strip s = []")
    case True
    then show ?thesis using del inv VStr by simp
  next
    case ne: False
    show ?thesis
    proof (cases "normalize_phone (VStr s)")
      case None
      then show ?thesis using del VStr ne byname by simp
    next
      case (Some k)
      show ?thesis
      proof (cases "k \<noteq> [] \<and> od_contains k (contacts st)")
        case True
        then have "st' = store_of (filter (\<lambda>kv. fst kv \<noteq> k) (contacts st))"
          using del VStr ne Some delete_by_phone_inv [OF inv, of k] by auto
        then show ?thesis using store_inv_filter [OF inv] by simp
      next
        case False
        then show ?thesis using del VStr ne Some byname by auto
      qed
    qed
  qed
qed (use del inv in auto)

lemma reachable_inv: "reachable w \<Longrightarrow> store_inv (fst w)"
proof (induction rule: reachable.induct)
  case (r_init f r st)
  then show ?case by (auto dest: load_inv)
next
  case (r_add st f nm ph ra st')
  then show ?case by (auto dest: add_contact_inv)
next
  case (r_delete st f v rd st')
  then show ?case by (auto dest: delete_inv)
next
  case (r_load st f r st')
  then show ?case by (auto dest: load_inv)
next
  case (r_save st f oe r f')
  then show ?case by simp
qed

subsection \<open>Evaluation and example sessions\<close>

lemmas string_eval =
  normalize_name_str_def normalize_phone_str_def re_sub_nondigit_def strip_def
  lower_def char_of_def bit_0 slice_last_def slice_from1_def endswith_def Let_def py_def

lemmas store_eval =
  add_contact_def empty_store_def od_contains_def dict_get_def store_of_def insert_new_def
  entry_name_def entry_phone_def pop_and_remove_def delete_by_name_def save_def dump_ok_def
  contact_json_def derived_key_def

lemma reachable_empty: "reachable (empty_store, FileNotFoundError)"
  by (rule r_init [of FileNotFoundError None]) simp

lemma reachable_add_all: "reachable (st, f) \<Longrightarrow> reachable (add_all xs st, f)"
proof (induction xs arbitrary: st)
  case Nil
  then show ?case by simp
next
  case (Cons a xs)
  obtain n p where a: "a = (n, p)" by (cases a)
  have "reachable (snd (add_contact st (VStr (py n)) (VStr (py p))), f)"
    using Cons.prems by (rule r_add) (rule prod.collapse [symmetric])
  then show ?case using Cons.IH a by simp
qed

lemma add_all_one:
  "add_all [(''Kamal'', ''98765-43210'')] empty_store =
     \<lparr>contacts = [(py ''9876543210'', \<lparr>name = py ''Kamal'', phone = py ''9876543210''\<rparr>)],
      contacts_list = [\<lparr>name = py ''Kamal'', phone = py ''9876543210''\<rparr>]\<rparr>"
  by (simp add: string_eval store_eval)

lemma add_all_two:
  "add_all [(''Kamal Kumar'', ''12345 67890''), (''Kamal'', ''98765-43210'')] empty_store =
     \<lparr>contacts = [(py ''1234567890'', \<lparr>name = py ''Kamal Kumar'', phone = py ''1234567890''\<rparr>),
                  (py ''9876543210'', \<lparr>name = py ''Kamal'', phone = py ''9876543210''\<rparr>)],
      contacts_list = [\<lparr>name = py ''Kamal Kumar'', phone = py ''1234567890''\<rparr>,
                       \<lparr>name = py ''Kamal'', phone = py ''9876543210''\<rparr>]\<rparr>"
  by (simp add: string_eval store_eval)


subsection \<open>Reading back what was saved\<close>

lemma import_saved_entry:
  assumes v: "valid_contact c" and k: "k = derived_key c" and fresh: "k \<notin> set (map fst d)"
  shows "import_entry (contact_json c) d = d @ [(k, c)]"
proof -
  have n: "entry_name [(py ''name'', VStr (name c)), (py ''phone'', VStr (phone c))]
           = (if name c = [] then None else Some (name c))"
    using v by (simp add: entry_name_def normalize_name_str_def valid_contact_def strip_trimmed)
  have p: "entry_phone [(py ''name'', VStr (name c)), (py ''phone'', VStr (phone c))]
           = (if phone c = [] then None else Some (phone c))"
  proof (cases "phone c = []")
    case True
    then show ?thesis
      by (simp add: entry_phone_def normalize_phone_str_def re_sub_nondigit_def)
  next
    case False
    then have "normalize_phone (VStr (phone c)) = Some (phone c)"
      using v by (intro normalize_phone_valid) (auto simp: valid_contact_def)
    then show ?thesis using False by (simp add: entry_phone_def)
  qed
  have c1: "phone c = [] \<Longrightarrow> \<lparr>name = name c, phone = []\<rparr> = c" by simp
  have c2: "name c = [] \<Longrightarrow> \<lparr>name = [], phone = phone c\<rparr> = c" by simp
  have c3: "\<lparr>name = name c, phone = phone c\<rparr> = c" by simp
  have ne: "name c \<noteq> [] \<or> phone c \<noteq> []" using v by (simp add: valid_contact_def)
  have e: "import_entry (contact_json c) d =
     (if phone c = []
      then (if name c = [] then d
            else insert_new (lower (name c)) \<lparr>name = name c, phone = []\<rparr> d)
      else (if name c = [] then insert_new (phone c) \<lparr>name = [], phone = phone c\<rparr> d
            else insert_new (phone c) \<lparr>name = name c, phone = phone c\<rparr> d))"
    by (simp add: contact_json_def n p)
  show ?thesis
  proof (cases "phone c = []")
    case True
    then have "k = lower (name c)" and "name c \<noteq> []"
      using k ne by (auto simp: derived_key_def)
    then show ?thesis
      using fresh True c1 by (simp add: e insert_new_def)
  next
    case False
    then have "k = phone c" using k by (simp add: derived_key_def)
    then show ?thesis
      using fresh False c2 c3
      by (cases "name c = []") (simp_all add: e insert_new_def)
  qed
qed

lemma import_saved:
  "store_inv (store_of (d1 @ d2)) \<Longrightarrow>
   import_all (map contact_json (map snd d2)) d1 = d1 @ d2"
proof (induction d2 arbitrary: d1)
  case Nil
  then show ?case by simp
next
  case (Cons a d2)
  obtain k c where a: "a = (k, c)" by (cases a)
  have inv: "store_inv (store_of ((d1 @ [(k, c)]) @ d2))" using Cons.prems a by simp
  have "valid_contact c" and "k = derived_key c" and "k \<notin> set (map fst d1)"
    using Cons.prems a by (auto simp: store_inv_def store_of_def)
  then have "import_entry (contact_json c) d1 = d1 @ [(k, c)]" by (rule import_saved_entry)
  then show ?case using Cons.IH [OF inv] a by simp
qed

lemma digit_encodable: "is_digit ch \<Longrightarrow> utf8_encodable ch"
  by (cases ch) simp_all

lemma all_digits_encodable: "all_digits p \<Longrightarrow> list_all utf8_encodable p"
  by (auto simp: all_digits_def list_all_iff digit_encodable)

lemma dump_ok_names:
  assumes "store_inv st"
  shows "dump_ok (contacts_list st)
         \<longleftrightarrow> list_all (\<lambda>c. list_all utf8_encodable (name c)) (contacts_list st)"
proof -
  have "list_all utf8_encodable (phone c)" if "c \<in> set (contacts_list st)" for c
  proof -
    have "valid_contact c"
      using assms that by (auto simp: store_inv_def list_all_iff)
    then show ?thesis
      by (cases "phone c = []") (auto simp: valid_contact_def all_digits_encodable)
  qed
  then show ?thesis by (auto simp: dump_ok_def list_all_iff)
qed

lemma save_ok:
  "dump_ok (contacts_list st) \<Longrightarrow>
   save st f None = (None, Data (VList (map contact_json (contacts_list st))))"
  by (simp add: save_def)

lemma load_saved:
  assumes "store_inv st"
  shows "load st0 (Data (VList (map contact_json (contacts_list st)))) = (None, st)"
proof -
  have "store_inv (store_of ([] @ contacts st))"
    using assms by (simp add: store_inv_store_of)
  then have "import_all (map contact_json (map snd (contacts st))) [] = [] @ contacts st"
    by (rule import_saved)
  moreover have "contacts_list st = map snd (contacts st)"
    using assms by (simp add: store_inv_def)
  ultimately show ?thesis
    using assms by (simp add: load_import store_inv_store_of)
qed

subsection \<open>Blank names and searching an extended list\<close>

lemma normalize_name_None_iff:
  "normalize_name nm = None \<longleftrightarrow> (\<forall>s. nm = VStr s \<longrightarrow> strip s = [])"
  by (cases nm) (auto simp: normalize_name_str_def Let_def)

lemma search_loop_append:
  "search_loop q (xs @ ys) = search_loop q xs @ search_loop q ys"
  by (induction xs) auto


lemma lower_Nil_iff: "lower s = [] \<longleftrightarrow> s = []"
  by (simp add: lower_def)

subsection \<open>Lengths after filtering; the cases of delete\<close>




section \<open>Phone normalisation\<close>

text \<open>
  Claim C1. Phone normalisation rejects every value that is not a string. For a string,
  with \<open>d\<close> the digits left after deleting every other character: ten digits are returned
  as they are; eleven digits starting with \<open>0\<close> lose that zero; twelve or more digits give
  the last ten; every other input, in particular one with fewer than ten digits, has no
  normalised form.
\<close>

theorem normalize_phone_spec:
  "normalize_phone v =
     (case v of
        VStr s \<Rightarrow>
          (let d = filter is_digit s in
           if length d = 10 then Some d
           else if length d = 11 \<and> hd d = Chr CHR ''0'' then Some (tl d)
           else if length d \<ge> 12 then Some (drop (length d - 10) d)
           else None)
      | _ \<Rightarrow> None)"
proof (cases v)
  case (VStr s)
  define d where "d = filter is_digit s"
  have sw: "length d = 11 \<Longrightarrow> startswith d (py ''0'') = (hd d = Chr CHR ''0'')"
    by (cases d) (auto simp: py_def)
  have l10: "length d \<ge> 12 \<Longrightarrow> length (slice_last 10 d) = 10"
    by (simp add: length_slice_last)
  show ?thesis
    using sw l10 endswith_slice_last [of d 10]
    by (auto simp: VStr normalize_phone_str_def re_sub_nondigit_def Let_def d_def [symmetric]
          slice_from1_def slice_last_def drop_Suc)
qed simp_all

theorem normalize_phone_spec_witness:
  "normalize_phone (VStr (py ''+91 98765-43210'')) = Some (py ''9876543210'')
   \<and> normalize_phone (VStr (py ''098765 43210'')) = Some (py ''9876543210'')
   \<and> normalize_phone (VStr (py ''(987) 654-3210'')) = Some (py ''9876543210'')
   \<and> normalize_phone (VStr (py ''98765-4321'')) = None
   \<and> normalize_phone (VInt 9876543210) = None"
  using normalize_phone_spec [of "VStr (py ''+91 98765-43210'')"]
    normalize_phone_spec [of "VStr (py ''098765 43210'')"]
    normalize_phone_spec [of "VStr (py ''(987) 654-3210'')"]
    normalize_phone_spec [of "VStr (py ''98765-4321'')"]
    normalize_phone_spec [of "VInt 9876543210"]
  by (simp add: py_def)

section \<open>Loading\<close>




text \<open>
  Claim C8. Loading the single entry with name \<^verbatim>\<open>A\<close> and the invalid phone \<^verbatim>\<open>123\<close> gives
  a store with exactly one record, name \<^verbatim>\<open>A\<close> and empty phone, under the key \<^verbatim>\<open>a\<close>.
\<close>

theorem load_scenario:
  "load st (Data (VList [VDict [(py ''name'', VStr (py ''A'')), (py ''phone'', VStr (py ''123''))]])) =
     (None, \<lparr>contacts = [(py ''a'', \<lparr>name = py ''A'', phone = []\<rparr>)],
             contacts_list = [\<lparr>name = py ''A'', phone = []\<rparr>]\<rparr>)"
  by (simp add: string_eval store_eval)

section \<open>Invariants of reachable states\<close>

text \<open>
  Claim C9. In every reachable state no two stored records have the same derived key; the
  keys of the index are the derived keys of the records, in order.
\<close>

theorem derived_keys_unique:
  "reachable (st, f) \<Longrightarrow>
     distinct (map derived_key (contacts_list st))
     \<and> map fst (contacts st) = map derived_key (contacts_list st)"
proof -
  assume "reachable (st, f)"
  then have inv: "store_inv st" by (auto dest: reachable_inv)
  have k: "map fst (contacts st) = map derived_key (contacts_list st)"
    using inv by (rule store_inv_keys)
  moreover have "distinct (map fst (contacts st))" using inv by (simp add: store_inv_def)
  ultimately show ?thesis by simp
qed

theorem derived_keys_unique_witness:
  "reachable (add_all [(''Kamal Kumar'', ''12345 67890''), (''Kamal'', ''98765-43210'')]
                empty_store, FileNotFoundError)
   \<and> map derived_key (contacts_list
        (add_all [(''Kamal Kumar'', ''12345 67890''), (''Kamal'', ''98765-43210'')] empty_store))
     = [(py ''1234567890''), (py ''9876543210'')]
   \<and> distinct (map derived_key (contacts_list
        (add_all [(''Kamal Kumar'', ''12345 67890''), (''Kamal'', ''98765-43210'')] empty_store)))"
proof -
  have r: "reachable (add_all [(''Kamal Kumar'', ''12345 67890''), (''Kamal'', ''98765-43210'')]
                empty_store, FileNotFoundError)"
    using reachable_empty by (rule reachable_add_all)
  show ?thesis
    using r derived_keys_unique [OF r] unfolding add_all_two by (simp add: derived_key_def)
qed

text \<open>
  Claim C10. In every reachable state the ordered list holds exactly the records of the
  index: it is the list of the index's values, so the two have the same multiset of records
  (and a deletion from the index has removed the same record from the list).
\<close>

theorem index_list_consistent:
  "reachable (st, f) \<Longrightarrow>
     contacts_list st = map snd (contacts st)
     \<and> mset (contacts_list st) = mset (map snd (contacts st))"
proof -
  assume "reachable (st, f)"
  then have "store_inv st" by (auto dest: reachable_inv)
  then show ?thesis by (simp add: store_inv_def)
qed

theorem index_list_consistent_witness:
  "reachable (snd (delete (add_all [(''Kamal Kumar'', ''12345 67890''),
                      (''Kamal'', ''98765-43210'')] empty_store) (VStr (py ''kamal''))),
              FileNotFoundError)
   \<and> snd (delete (add_all [(''Kamal Kumar'', ''12345 67890''),
                      (''Kamal'', ''98765-43210'')] empty_store) (VStr (py ''kamal'')))
     = \<lparr>contacts = [(py ''1234567890'', \<lparr>name = py ''Kamal Kumar'', phone = py ''1234567890''\<rparr>)],
        contacts_list = [\<lparr>name = py ''Kamal Kumar'', phone = py ''1234567890''\<rparr>]\<rparr>"
proof -
  let ?st = "add_all [(''Kamal Kumar'', ''12345 67890''), (''Kamal'', ''98765-43210'')] empty_store"
  have "reachable (?st, FileNotFoundError)"
    using reachable_empty by (rule reachable_add_all)
  then have r: "reachable (snd (delete ?st (VStr (py ''kamal''))), FileNotFoundError)"
    by (rule r_delete) (rule prod.collapse [symmetric])
  have e: "snd (delete ?st (VStr (py ''kamal'')))
     = \<lparr>contacts = [(py ''1234567890'', \<lparr>name = py ''Kamal Kumar'', phone = py ''1234567890''\<rparr>)],
        contacts_list = [\<lparr>name = py ''Kamal Kumar'', phone = py ''1234567890''\<rparr>]\<rparr>"
    unfolding add_all_two by (simp add: string_eval store_eval)
  show ?thesis
    using r e index_list_consistent [OF r] by simp
qed

section \<open>Saving and loading\<close>

text \<open>
  Claim C5, as stated, promises the round trip for every store without invalid entries. A
  name made of a lone surrogate is a valid name: \<^verbatim>\<open>add_contact\<close> stores it. Saving that
  store raises \<^verbatim>\<open>UnicodeEncodeError\<close> and leaves an unterminated text in the file, and the
  following load, which finds no JSON there, ends with an empty store: the record is lost.
  The same happens to any store when the file cannot be opened for writing and was missing.
\<close>

theorem save_load_surrogate_counterexample:
  "add_contact empty_store (VStr [Surrogate 0]) (VStr (py ''98765-43210''))
     = (Inr \<lparr>name = [Surrogate 0], phone = py ''9876543210''\<rparr>,
        \<lparr>contacts = [(py ''9876543210'', \<lparr>name = [Surrogate 0], phone = py ''9876543210''\<rparr>)],
         contacts_list = [\<lparr>name = [Surrogate 0], phone = py ''9876543210''\<rparr>]\<rparr>)
   \<and> save \<lparr>contacts = [(py ''9876543210'', \<lparr>name = [Surrogate 0], phone = py ''9876543210''\<rparr>)],
            contacts_list = [\<lparr>name = [Surrogate 0], phone = py ''9876543210''\<rparr>]\<rparr>
          FileNotFoundError None
     = (Some (UnicodeEncodeError, py ''surrogates not allowed''), JSONDecodeError)
   \<and> load \<lparr>contacts = [(py ''9876543210'', \<lparr>name = [Surrogate 0], phone = py ''9876543210''\<rparr>)],
            contacts_list = [\<lparr>name = [Surrogate 0], phone = py ''9876543210''\<rparr>]\<rparr>
          (snd (save \<lparr>contacts = [(py ''9876543210'',
                                    \<lparr>name = [Surrogate 0], phone = py ''9876543210''\<rparr>)],
                      contacts_list = [\<lparr>name = [Surrogate 0], phone = py ''9876543210''\<rparr>]\<rparr>
                 FileNotFoundError None))
     = (None, empty_store)
   \<and> load (add_all [(''Kamal'', ''98765-43210'')] empty_store)
          (snd (save (add_all [(''Kamal'', ''98765-43210'')] empty_store) FileNotFoundError
                  (Some (PermissionError, py ''Permission denied''))))
     = (None, empty_store)"
  by (simp add: string_eval store_eval)

text \<open>
  Claim C5, amended. In every reachable state in which no stored name holds a lone
  surrogate (every name can be encoded as UTF-8), saving to a file that can be opened for
  writing raises nothing and writes the list, and loading that file, whatever the store
  held before the load, gives the store that was saved: the same records in the same order,
  hence the same set of (name, phone) pairs.
\<close>

theorem save_load_roundtrip:
  "reachable (st, f) \<Longrightarrow>
   list_all (\<lambda>c. list_all utf8_encodable (name c)) (contacts_list st) \<Longrightarrow>
     save st f None = (None, Data (VList (map contact_json (contacts_list st))))
     \<and> load st0 (snd (save st f None)) = (None, st)
     \<and> (\<lambda>c. (name c, phone c)) ` set (contacts_list (snd (load st0 (snd (save st f None)))))
       = (\<lambda>c. (name c, phone c)) ` set (contacts_list st)"
proof -
  assume r: "reachable (st, f)"
    and enc: "list_all (\<lambda>c. list_all utf8_encodable (name c)) (contacts_list st)"
  have inv: "store_inv st" using r by (auto dest: reachable_inv)
  have "dump_ok (contacts_list st)" using enc dump_ok_names [OF inv] by simp
  then have s: "save st f None = (None, Data (VList (map contact_json (contacts_list st))))"
    by (rule save_ok)
  have "load st0 (Data (VList (map contact_json (contacts_list st)))) = (None, st)"
    using inv by (rule load_saved)
  then show ?thesis using s by simp
qed

theorem save_load_roundtrip_witness:
  "reachable (add_all [(''Kamal Kumar'', ''12345 67890''), (''Kamal'', ''98765-43210'')]
                empty_store, FileNotFoundError)
   \<and> list_all (\<lambda>c. list_all utf8_encodable (name c))
        (contacts_list (add_all [(''Kamal Kumar'', ''12345 67890''),
                                 (''Kamal'', ''98765-43210'')] empty_store))
   \<and> load empty_store (snd (save
        (add_all [(''Kamal Kumar'', ''12345 67890''), (''Kamal'', ''98765-43210'')] empty_store)
        FileNotFoundError None))
     = (None,
        add_all [(''Kamal Kumar'', ''12345 67890''), (''Kamal'', ''98765-43210'')] empty_store)
   \<and> (\<lambda>c. (name c, phone c)) ` set (contacts_list (snd (load empty_store (snd (save
        (add_all [(''Kamal Kumar'', ''12345 67890''), (''Kamal'', ''98765-43210'')]
           empty_store) FileNotFoundError None)))))
     = {(py ''Kamal Kumar'', py ''1234567890''), (py ''Kamal'', py ''9876543210'')}"
proof -
  let ?st = "add_all [(''Kamal Kumar'', ''12345 67890''), (''Kamal'', ''98765-43210'')] empty_store"
  have r: "reachable (?st, FileNotFoundError)"
    using reachable_empty by (rule reachable_add_all)
  have e: "list_all (\<lambda>c. list_all utf8_encodable (name c)) (contacts_list ?st)"
    unfolding add_all_two by (simp add: py_def)
  have p: "(\<lambda>c. (name c, phone c)) ` set (contacts_list ?st)
        = {(py ''Kamal Kumar'', py ''1234567890''), (py ''Kamal'', py ''9876543210'')}"
    unfolding add_all_two by simp
  note t = save_load_roundtrip [OF r e, of empty_store]
  have l: "load empty_store (snd (save ?st FileNotFoundError None)) = (None, ?st)"
    using t by (rule conjunct2 [THEN conjunct1])
  have q: "(\<lambda>c. (name c, phone c)) `
             set (contacts_list (snd (load empty_store (snd (save ?st FileNotFoundError None)))))
        = {(py ''Kamal Kumar'', py ''1234567890''), (py ''Kamal'', py ''9876543210'')}"
    unfolding l snd_conv by (rule p)
  show ?thesis
    using r e l q by (intro conjI)
qed

section \<open>Adding\<close>

text \<open>
  Claim C2, as stated, gives the duplicate failure an error kind distinct from that of the
  validation failures. The code raises \<^verbatim>\<open>ValueError\<close> in all three cases: adding a phone
  that is already stored and adding a blank name fail with the same exception class, and
  only the message differs.
\<close>

theorem add_contact_same_error_class_counterexample:
  "add_contact (add_all [(''Kamal'', ''98765-43210'')] empty_store)
       (VStr (py ''Kamal'')) (VStr (py ''98765-43210''))
     = (Inl (ValueError, py ''Phone already exists.''),
        add_all [(''Kamal'', ''98765-43210'')] empty_store)
   \<and> add_contact (add_all [(''Kamal'', ''98765-43210'')] empty_store)
       (VStr (py ''  '')) (VStr (py ''98765-43210''))
     = (Inl (ValueError, py ''Name is required.''),
        add_all [(''Kamal'', ''98765-43210'')] empty_store)"
  unfolding add_all_one by (simp add: string_eval store_eval)

text \<open>
  Claim C2, amended. \<^verbatim>\<open>add_contact\<close> fails with \<^verbatim>\<open>ValueError\<close> and the message
  \<^verbatim>\<open>Name is required.\<close> when the name does not normalise (it is not a string, or is empty
  after trimming); with \<^verbatim>\<open>ValueError\<close> and the message \<^verbatim>\<open>Phone is invalid. ...\<close> when the
  name is fine and the phone does not normalise; with \<^verbatim>\<open>ValueError\<close> and the message
  \<^verbatim>\<open>Phone already exists.\<close> when the normalised phone is already a key of the store.
  Otherwise it appends the record under the normalised phone at the end of the dictionary
  and of the list and returns it. Every failure is a \<^verbatim>\<open>ValueError\<close> and leaves the store
  exactly as it was.
\<close>

theorem add_contact_behaviour:
  "(normalize_name nm = None \<longleftrightarrow> (\<forall>s. nm = VStr s \<longrightarrow> strip s = []))
   \<and> (normalize_name nm = None \<longrightarrow>
        add_contact st nm ph = (Inl (ValueError, py ''Name is required.''), st))
   \<and> (normalize_name nm \<noteq> None \<and> normalize_phone ph = None \<longrightarrow>
        add_contact st nm ph =
          (Inl (ValueError,
             py ''Phone is invalid. Provide a valid 10-digit number (country code allowed).''), st))
   \<and> (\<forall>n p. normalize_name nm = Some n \<and> normalize_phone ph = Some p
              \<and> p \<in> set (map fst (contacts st)) \<longrightarrow>
        add_contact st nm ph = (Inl (ValueError, py ''Phone already exists.''), st))
   \<and> (\<forall>n p. normalize_name nm = Some n \<and> normalize_phone ph = Some p
              \<and> p \<notin> set (map fst (contacts st)) \<longrightarrow>
        add_contact st nm ph =
          (Inr \<lparr>name = n, phone = p\<rparr>,
           \<lparr>contacts = contacts st @ [(p, \<lparr>name = n, phone = p\<rparr>)],
            contacts_list = contacts_list st @ [\<lparr>name = n, phone = p\<rparr>]\<rparr>))
   \<and> (\<forall>e. fst (add_contact st nm ph) = Inl e \<longrightarrow>
          fst e = ValueError \<and> snd (add_contact st nm ph) = st)"
proof (intro conjI allI impI)
  show "normalize_name nm = None \<longleftrightarrow> (\<forall>s. nm = VStr s \<longrightarrow> strip s = [])"
    by (rule normalize_name_None_iff)
next
  assume "normalize_name nm = None"
  then show "add_contact st nm ph = (Inl (ValueError, py ''Name is required.''), st)"
    unfolding add_contact_cases by simp
next
  assume "normalize_name nm \<noteq> None \<and> normalize_phone ph = None"
  then obtain n where "normalize_name nm = Some n" "normalize_phone ph = None" by auto
  then show "add_contact st nm ph =
          (Inl (ValueError,
             py ''Phone is invalid. Provide a valid 10-digit number (country code allowed).''), st)"
    unfolding add_contact_cases by simp
next
  fix n p
  assume "normalize_name nm = Some n \<and> normalize_phone ph = Some p
              \<and> p \<in> set (map fst (contacts st))"
  then have "normalize_name nm = Some n" "normalize_phone ph = Some p"
    "od_contains p (contacts st)" by (simp_all add: od_contains_def)
  then show "add_contact st nm ph = (Inl (ValueError, py ''Phone already exists.''), st)"
    unfolding add_contact_cases by simp
next
  fix n p
  assume "normalize_name nm = Some n \<and> normalize_phone ph = Some p
              \<and> p \<notin> set (map fst (contacts st))"
  then have "normalize_name nm = Some n" "normalize_phone ph = Some p"
    "\<not> od_contains p (contacts st)" by (simp_all add: od_contains_def)
  then show "add_contact st nm ph =
          (Inr \<lparr>name = n, phone = p\<rparr>,
           \<lparr>contacts = contacts st @ [(p, \<lparr>name = n, phone = p\<rparr>)],
            contacts_list = contacts_list st @ [\<lparr>name = n, phone = p\<rparr>]\<rparr>)"
    unfolding add_contact_cases by simp
next
  fix e
  assume "fst (add_contact st nm ph) = Inl e"
  then show "fst e = ValueError"
    unfolding add_contact_cases by (cases "normalize_name nm"; cases "normalize_phone ph")
      (auto split: if_splits)
next
  fix e
  assume "fst (add_contact st nm ph) = Inl e"
  then show "snd (add_contact st nm ph) = st"
    unfolding add_contact_cases by (cases "normalize_name nm"; cases "normalize_phone ph")
      (auto split: if_splits)
qed

theorem add_contact_behaviour_witness:
  "add_contact (add_all [(''Kamal'', ''98765-43210'')] empty_store)
       (VStr (py ''Kamal'')) (VStr (py ''+91 98765 43210''))
     = (Inl (ValueError, py ''Phone already exists.''),
        add_all [(''Kamal'', ''98765-43210'')] empty_store)
   \<and> add_contact (add_all [(''Kamal'', ''98765-43210'')] empty_store)
       (VStr (py '' Asha '')) (VStr (py ''012345 67890''))
     = (Inr \<lparr>name = py ''Asha'', phone = py ''1234567890''\<rparr>,
        \<lparr>contacts = [(py ''9876543210'', \<lparr>name = py ''Kamal'', phone = py ''9876543210''\<rparr>),
                     (py ''1234567890'', \<lparr>name = py ''Asha'', phone = py ''1234567890''\<rparr>)],
         contacts_list = [\<lparr>name = py ''Kamal'', phone = py ''9876543210''\<rparr>,
                          \<lparr>name = py ''Asha'', phone = py ''1234567890''\<rparr>]\<rparr>)"
proof -
  let ?st = "add_all [(''Kamal'', ''98765-43210'')] empty_store"
  have n1: "normalize_name (VStr (py ''Kamal'')) = Some (py ''Kamal'')"
    and n4: "normalize_name (VStr (py '' Asha '')) = Some (py ''Asha'')"
    and p1: "normalize_phone (VStr (py ''+91 98765 43210'')) = Some (py ''9876543210'')"
    and p4: "normalize_phone (VStr (py ''012345 67890'')) = Some (py ''1234567890'')"
    by (simp_all add: string_eval)
  have k1: "(py ''9876543210'') \<in> set (map fst (contacts ?st))"
    and k4: "(py ''1234567890'') \<notin> set (map fst (contacts ?st))"
    unfolding add_all_one by simp_all
  have "add_contact ?st (VStr (py ''Kamal'')) (VStr (py ''+91 98765 43210''))
        = (Inl (ValueError, py ''Phone already exists.''), ?st)"
    using add_contact_behaviour [of "VStr (py ''Kamal'')" ?st "VStr (py ''+91 98765 43210'')"] n1 p1 k1
    by blast
  moreover have "add_contact ?st (VStr (py '' Asha '')) (VStr (py ''012345 67890''))
        = (Inr \<lparr>name = py ''Asha'', phone = py ''1234567890''\<rparr>,
           \<lparr>contacts = contacts ?st @ [(py ''1234567890'', \<lparr>name = py ''Asha'', phone = py ''1234567890''\<rparr>)],
            contacts_list = contacts_list ?st @ [\<lparr>name = py ''Asha'', phone = py ''1234567890''\<rparr>]\<rparr>)"
    using add_contact_behaviour [of "VStr (py '' Asha '')" ?st "VStr (py ''012345 67890'')"] n4 p4 k4
    by blast
  ultimately show ?thesis
    unfolding add_all_one by simp
qed

text \<open>
  Claim C7, as stated, promises exactly one record from \<^verbatim>\<open>search(name)\<close> after a successful
  \<^verbatim>\<open>add(name, phone)\<close> in every store. With \<^verbatim>\<open>Kamal Kumar\<close> already stored, adding
  \<^verbatim>\<open>Kamal\<close> succeeds and the search for \<^verbatim>\<open>Kamal\<close> yields two records.
\<close>

theorem add_then_search_counterexample:
  "fst (add_contact (add_all [(''Kamal Kumar'', ''12345 67890'')] empty_store)
          (VStr (py ''Kamal'')) (VStr (py ''98765-43210'')))
     = Inr \<lparr>name = py ''Kamal'', phone = py ''9876543210''\<rparr>
   \<and> search (snd (add_contact (add_all [(''Kamal Kumar'', ''12345 67890'')] empty_store)
                  (VStr (py ''Kamal'')) (VStr (py ''98765-43210'')))) (VStr (py ''Kamal''))
     = [\<lparr>name = py ''Kamal Kumar'', phone = py ''1234567890''\<rparr>,
        \<lparr>name = py ''Kamal'', phone = py ''9876543210''\<rparr>]"
proof -
  have a: "add_contact (add_all [(''Kamal Kumar'', ''12345 67890'')] empty_store)
          (VStr (py ''Kamal'')) (VStr (py ''98765-43210''))
     = (Inr \<lparr>name = py ''Kamal'', phone = py ''9876543210''\<rparr>,
        \<lparr>contacts = [(py ''1234567890'', \<lparr>name = py ''Kamal Kumar'', phone = py ''1234567890''\<rparr>),
                  (py ''9876543210'', \<lparr>name = py ''Kamal'', phone = py ''9876543210''\<rparr>)],
         contacts_list = [\<lparr>name = py ''Kamal Kumar'', phone = py ''1234567890''\<rparr>,
                       \<lparr>name = py ''Kamal'', phone = py ''9876543210''\<rparr>]\<rparr>)"
    by (simp add: string_eval store_eval)
  show ?thesis
    unfolding a by (simp add: string_eval)
qed

text \<open>
  Claim C7, amended. After a successful \<^verbatim>\<open>add(name, phone)\<close>, \<^verbatim>\<open>search(name)\<close> yields the
  records it yielded before the add, followed by the added record, whose name is the
  trimmed name; so it yields exactly the added record when no earlier record matched.
\<close>

theorem add_then_search:
  "add_contact st nm ph = (Inr c, st') \<Longrightarrow>
     search st' nm = search st nm @ [c]
     \<and> (\<exists>s. nm = VStr s \<and> name c = strip s)
     \<and> (search st nm = [] \<longrightarrow> search st' nm = [c])"
proof -
  assume a: "add_contact st nm ph = (Inr c, st')"
  obtain n where n: "normalize_name nm = Some n"
    using a by (cases "normalize_name nm") (auto simp: add_contact_cases)
  obtain p where p: "normalize_phone ph = Some p"
    using a n by (cases "normalize_phone ph") (auto simp: add_contact_cases)
  have c: "c = \<lparr>name = n, phone = p\<rparr>" and l: "contacts_list st' = contacts_list st @ [c]"
    using a n p by (auto simp: add_contact_cases split: if_splits)
  obtain s where s: "nm = VStr s" "n = strip s" "n \<noteq> []"
    using normalize_name_Some [OF n] by auto
  have "str_contains (lower (name c)) (lower (strip s))"
    using c s by (simp add: str_contains_refl)
  then have "search_loop (lower (strip s)) [c] = [c]" by simp
  then have "search st' nm = search st nm @ [c]"
    using s l by (simp add: search_loop_append lower_Nil_iff)
  then show ?thesis using s c by simp
qed

theorem add_then_search_witness:
  "add_contact empty_store (VStr (py '' Kamal '')) (VStr (py ''98765-43210''))
     = (Inr \<lparr>name = py ''Kamal'', phone = py ''9876543210''\<rparr>,
        add_all [('' Kamal '', ''98765-43210'')] empty_store)
   \<and> search (add_all [('' Kamal '', ''98765-43210'')] empty_store) (VStr (py '' Kamal ''))
     = [\<lparr>name = py ''Kamal'', phone = py ''9876543210''\<rparr>]"
proof -
  have a: "add_contact empty_store (VStr (py '' Kamal '')) (VStr (py ''98765-43210''))
     = (Inr \<lparr>name = py ''Kamal'', phone = py ''9876543210''\<rparr>,
        add_all [('' Kamal '', ''98765-43210'')] empty_store)"
    by (simp add: string_eval store_eval)
  have e: "search empty_store (VStr (py '' Kamal '')) = []"
    by (simp add: string_eval store_eval)
  show ?thesis
    using a e add_then_search [OF a] by simp
qed

section \<open>Deleting\<close>




section \<open>Searching\<close>




end
